theory Spec2Isabelle
  imports Main
begin

section \<open>JavaScript strings\<close>

text \<open>
  A TypeScript \<^verbatim>\<open>string\<close> is modelled as a \<^typ>\<open>string\<close> (a list of code units, here
  restricted to the 8-bit range). A variable declared \<^verbatim>\<open>string\<close> can still hold
  \<^verbatim>\<open>undefined\<close> or \<^verbatim>\<open>null\<close> at run time; where the source tests for that, the
  variable is a \<^typ>\<open>string option\<close> and \<^term>\<open>None\<close> stands for both.
\<close>

text \<open>The truthiness test of \<^verbatim>\<open>if (s)\<close>: false for undefined, null and the empty string.\<close>

definition js_truthy :: "string option \<Rightarrow> bool" where
  "js_truthy s = (case s of None \<Rightarrow> False | Some v \<Rightarrow> v \<noteq> [])"

text \<open>The conversion made by a template literal \<^verbatim>\<open>${s}\<close>.\<close>

definition js_toString :: "string option \<Rightarrow> string" where
  "js_toString s = (case s of None \<Rightarrow> ''undefined'' | Some v \<Rightarrow> v)"

text \<open>\<^verbatim>\<open>s.startsWith(pat)\<close>, used by the search for a substring.\<close>

fun js_startsWith :: "string \<Rightarrow> string \<Rightarrow> bool" where
  "js_startsWith s [] = True"
| "js_startsWith [] (p # ps) = False"
| "js_startsWith (c # cs) (p # ps) = (c = p \<and> js_startsWith cs ps)"

text \<open>\<^verbatim>\<open>s.indexOf(pat)\<close>: the position of the first occurrence, \<^term>\<open>None\<close> for -1.\<close>

fun js_indexOf :: "string \<Rightarrow> string \<Rightarrow> nat option" where
  "js_indexOf [] pat = (if pat = [] then Some 0 else None)"
| "js_indexOf (c # cs) pat =
     (if js_startsWith (c # cs) pat then Some 0 else map_option Suc (js_indexOf cs pat))"

text \<open>
  \<^verbatim>\<open>s.replace(pat, rep)\<close> with a string pattern: the first occurrence of the pattern
  is replaced, and a string without the pattern is returned as it is. The replacement
  is taken literally, which is what JavaScript does for a replacement without a dollar
  sign; the only replacement the source uses is \<^verbatim>\<open>format=rss\<close>.
\<close>

definition js_replace :: "string \<Rightarrow> string \<Rightarrow> string \<Rightarrow> string" where
  "js_replace s pat rep =
     (case js_indexOf s pat of
        None \<Rightarrow> s
      | Some k \<Rightarrow> take k s @ rep @ drop (k + length pat) s)"

section \<open>The RSS feed component (rss.component.ts)\<close>

text \<open>\<^verbatim>\<open>SortOptions\<close>: the sort field and the sort direction, either of which may be unset.\<close>

record SortOptions =
  field :: "string option"
  direction :: "string option"

text \<open>The attributes of a link tag handed to \<^verbatim>\<open>LinkHeadService.addTag\<close>.\<close>

record LinkDefinition =
  link_href :: string
  link_type :: string
  link_rel :: string
  link_title :: string

text \<open>
  The component's fields, and the link tags of the document head that the injected
  \<^verbatim>\<open>LinkHeadService\<close> manages.
\<close>

record RSSComponent =
  route_S :: "string option"
  isEnabled_S :: bool
  uuid :: "string option"
  head_links :: "LinkDefinition list"

text \<open>
  Modelled from the spec: \<^verbatim>\<open>LinkHeadService.addTag\<close> is not among the source files.
  The spec says the feed links are exposed as document-level link metadata and that
  tags are added on view activation: the tag is appended to the head.
\<close>

definition addTag :: "LinkDefinition \<Rightarrow> LinkDefinition list \<Rightarrow> LinkDefinition list" where
  "addTag tag hd_links = hd_links @ [tag]"

text \<open>An attribute value in single quotes, as in the selector \<^verbatim>\<open>rel='alternate'\<close>.\<close>

definition quoted :: "string \<Rightarrow> string" where
  "quoted v = CHR 0x27 # v @ [CHR 0x27]"

text \<open>
  Modelled from the spec: \<^verbatim>\<open>LinkHeadService.removeTag\<close> is not among the source
  files. The spec says tags are removed by exact selector match: an attribute selector
  \<^verbatim>\<open>attr='value'\<close> matches a link tag whose attribute has exactly that value, and
  every matching tag is removed.
\<close>

definition selector_matches :: "string \<Rightarrow> LinkDefinition \<Rightarrow> bool" where
  "selector_matches attrSelector tag =
     (attrSelector = ''href='' @ quoted (link_href tag) \<or>
      attrSelector = ''type='' @ quoted (link_type tag) \<or>
      attrSelector = ''rel='' @ quoted (link_rel tag) \<or>
      attrSelector = ''title='' @ quoted (link_title tag))"

definition removeTag :: "string \<Rightarrow> LinkDefinition list \<Rightarrow> LinkDefinition list" where
  "removeTag attrSelector hd_links =
     filter (\<lambda>tag. \<not> selector_matches attrSelector tag) hd_links"

text \<open>\<^verbatim>\<open>formulateRoute(uuid, opensearch, sort, query)\<close>, lines 97 to 112.\<close>

definition formulateRoute ::
  "string option \<Rightarrow> string \<Rightarrow> SortOptions \<Rightarrow> string option \<Rightarrow> string" where
  "formulateRoute uuid' opensearch sortOpts query =
     (let route = ''search?format=atom'';
          route = (if js_truthy uuid' then route @ ''&scope='' @ js_toString uuid' else route);
          route = (if js_truthy (direction sortOpts) \<and> js_truthy (field sortOpts)
                   then route @ ''&sort='' @ js_toString (field sortOpts) @
                        ''&sort_direction='' @ js_toString (direction sortOpts)
                   else route);
          route = (if js_truthy query then route @ ''&query='' @ js_toString query
                   else route @ ''&query=*'')
      in ''/'' @ opensearch @ ''/'' @ route)"

text \<open>\<^verbatim>\<open>addLinks(route)\<close>, lines 118 to 132.\<close>

definition atom_link :: "string \<Rightarrow> LinkDefinition" where
  "atom_link route =
     \<lparr>link_href = route, link_type = ''application/atom+xml'',
      link_rel = ''alternate'', link_title = ''Sitewide Atom feed''\<rparr>"

definition rss_link :: "string \<Rightarrow> LinkDefinition" where
  "rss_link route =
     \<lparr>link_href = route, link_type = ''application/rss+xml'',
      link_rel = ''alternate'', link_title = ''Sitewide RSS feed''\<rparr>"

definition addLinks :: "string \<Rightarrow> RSSComponent \<Rightarrow> RSSComponent" where
  "addLinks route c =
     (let c1 = c\<lparr>head_links := addTag (atom_link route) (head_links c)\<rparr>;
          route' = js_replace route ''format=atom'' ''format=rss''
      in c1\<lparr>head_links := addTag (rss_link route') (head_links c1)\<rparr>)"

text \<open>
  The innermost callback of \<^verbatim>\<open>ngOnInit\<close>, lines 73 to 84, run when the service
  context \<open>svccontext\<close> (\<^verbatim>\<open>url.payload.values[0]\<close>), the current query and the current
  sort options have arrived. \<open>baseUrl\<close> is \<^verbatim>\<open>environment.rest.baseUrl\<close> and
  \<open>routerUuid\<close> is what \<^verbatim>\<open>getUUIDFromString(this.router.url)\<close> returned; both come
  from files that are not among the sources and are parameters.
\<close>

definition search_link :: "string \<Rightarrow> string \<Rightarrow> LinkDefinition" where
  "search_link baseUrl svccontext =
     \<lparr>link_href = baseUrl @ ''/'' @ svccontext @ ''/service'',
      link_type = ''application/atom+xml'', link_rel = ''search'', link_title = ''Dspace''\<rparr>"

definition ngOnInit_sort ::
  "string \<Rightarrow> string option \<Rightarrow> string \<Rightarrow> SortOptions \<Rightarrow> string option \<Rightarrow>
   RSSComponent \<Rightarrow> RSSComponent" where
  "ngOnInit_sort baseUrl routerUuid svccontext sortOpts query c =
     (let c1 = c\<lparr>uuid := routerUuid\<rparr>;
          route = baseUrl @ formulateRoute (uuid c1) svccontext sortOpts query;
          c2 = addLinks route c1;
          c3 = c2\<lparr>head_links := addTag (search_link baseUrl svccontext) (head_links c2)\<rparr>
      in c3\<lparr>route_S := Some route\<rparr>)"

text \<open>\<^verbatim>\<open>ngOnDestroy()\<close>, lines 51 to 53.\<close>

definition rss_ngOnDestroy :: "RSSComponent \<Rightarrow> RSSComponent" where
  "rss_ngOnDestroy c = c\<lparr>head_links := removeTag (''rel='' @ quoted ''alternate'') (head_links c)\<rparr>"

section \<open>The groups registry component (groups-registry.component.ts)\<close>

subsection \<open>Data\<close>

text \<open>
  \<^verbatim>\<open>s.trim()\<close>: the white space and line terminators of JavaScript, among the code
  units below 256, are removed at both ends.
\<close>

definition js_isWhiteSpace :: "char \<Rightarrow> bool" where
  "js_isWhiteSpace c =
     (c = CHR 0x09 \<or> c = CHR 0x0A \<or> c = CHR 0x0B \<or> c = CHR 0x0C \<or> c = CHR 0x0D \<or>
      c = CHR 0x20 \<or> c = CHR 0xA0)"

definition js_trim :: "string \<Rightarrow> string" where
  "js_trim s = rev (dropWhile js_isWhiteSpace (rev (dropWhile js_isWhiteSpace s)))"

text \<open>
  Modelled from the spec: \<^verbatim>\<open>PageInfo\<close>, \<^verbatim>\<open>PaginatedList\<close> and \<^verbatim>\<open>RemoteData\<close> are
  imported from files that are not among the sources. The spec gives a page's metadata
  as current page, page size and total elements, a paginated list as the metadata and
  the ordered items, and a remote resource as a request state with an optional payload
  and an optional error message; \<^verbatim>\<open>hasSucceeded\<close> holds in the state Success.
\<close>

record PageInfo =
  pi_currentPage :: int
  pi_pageSize :: int
  pi_totalElements :: int

record 'a PaginatedList =
  pageInfo :: PageInfo
  page :: "'a list"

datatype RequestState = Idle | RequestPending | Success | Error

text \<open>
  A group: its id (which \<^verbatim>\<open>hasValue\<close> tests, so it may be undefined or null), its name
  and its self link.
\<close>

record Group =
  group_id :: "string option"
  group_name :: string
  group_self :: string

text \<open>
  An entry of a fetched page is tested with \<^verbatim>\<open>hasValue(group)\<close> before its self link
  is read, so an entry is a \<^typ>\<open>Group option\<close>.
\<close>

record RemoteData =
  rd_state :: RequestState
  payload :: "Group option PaginatedList option"
  errorMessage :: "string option"

definition hasSucceeded :: "RemoteData \<Rightarrow> bool" where
  "hasSucceeded rd = (rd_state rd = Success)"

text \<open>\<^verbatim>\<open>GroupDtoModel\<close>: the group and whether the current user may delete it.\<close>

record GroupDtoModel =
  ableToDelete :: bool
  dto_group :: "Group option"

text \<open>
  \<^verbatim>\<open>hasValue\<close> (shared/empty.util, not among the sources): the value is neither
  undefined nor null.
\<close>

definition hasValue :: "'a option \<Rightarrow> bool" where
  "hasValue v = (v \<noteq> None)"

text \<open>
  \<^verbatim>\<open>translateService.get(key, params)\<close>: the translation is not computed here; the
  key and the interpolation parameters are kept as they were passed.
\<close>

datatype Translation = Translate string "(string \<times> string option) list"

text \<open>The calls the component makes on its injected services, in the order made.\<close>

datatype ServiceCall =
    NavigateByUrl_GroupRegistryRouterLink
  | SearchGroups string int int
  | RestRequest string int int
  | IsAuthorized_CanDelete "string option"
  | DeleteGroup Group
  | ClearGroupsRequests
  | NotifySuccess Translation
  | NotifyError Translation Translation
  | UncaughtTypeError

subsection \<open>The derivation step: combineLatest over the per-group authorization queries\<close>

text \<open>
  The inner observable that \<^verbatim>\<open>switchMap\<close> builds for one fetched list (lines 120 to
  132): \<^verbatim>\<open>combineLatest\<close> keeps, for every group of the page, the latest DTO that
  its \<^verbatim>\<open>isAuthorized(...).pipe(map(...))\<close> has produced, \<^term>\<open>None\<close> as long as it has
  produced none.
\<close>

record Inner =
  inner_pageInfo :: PageInfo
  inner_page :: "Group option list"
  inner_latest :: "GroupDtoModel option list"

definition switchMap_project :: "Group option PaginatedList \<Rightarrow> Inner" where
  "switchMap_project groups =
     \<lparr>inner_pageInfo = pageInfo groups, inner_page = page groups,
      inner_latest = replicate (length (page groups)) None\<rparr>"

text \<open>The \<^verbatim>\<open>map\<close> of lines 123 to 128: the DTO built from one authorization answer.\<close>

definition mkGroupDtoModel :: "bool \<Rightarrow> Group option \<Rightarrow> GroupDtoModel" where
  "mkGroupDtoModel authorized g = \<lparr>ableToDelete = authorized, dto_group = g\<rparr>"

text \<open>
  The authorization query of the \<open>i\<close>-th group emits \<open>authorized\<close>. \<^verbatim>\<open>combineLatest\<close>
  stores the value at position \<open>i\<close> and emits the array of latest values once every
  position has one; lines 130 to 132 wrap the array in a \<^verbatim>\<open>PaginatedList\<close> with the
  page metadata of the fetched list. There is no \<open>i\<close>-th query when \<open>i\<close> is not an index
  of the page.
\<close>

definition isAuthorized_emits ::
  "nat \<Rightarrow> bool \<Rightarrow> Inner \<Rightarrow> Inner \<times> GroupDtoModel PaginatedList option" where
  "isAuthorized_emits i authorized inner =
     (if i < length (inner_page inner) then
        (let latest = (inner_latest inner)[i := Some (mkGroupDtoModel authorized (inner_page inner ! i))];
             inner' = inner\<lparr>inner_latest := latest\<rparr>
         in if list_all (\<lambda>v. v \<noteq> None) latest
            then (inner', Some \<lparr>pageInfo = inner_pageInfo inner, page = map the latest\<rparr>)
            else (inner', None))
      else (inner, None))"

text \<open>
  A sequence of answers of the authorization queries, in the order in which they
  arrive; the result lists what the derivation step emits at each of them.
\<close>

fun derivation_run ::
  "Inner \<Rightarrow> (nat \<times> bool) list \<Rightarrow> GroupDtoModel PaginatedList option list" where
  "derivation_run inner [] = []"
| "derivation_run inner ((i, authorized) # evs) =
     (case isAuthorized_emits i authorized inner of
        (inner', out) \<Rightarrow> out # derivation_run inner' evs)"

subsection \<open>The component and its subscriptions\<close>

text \<open>
  The subscriptions the component creates: to the result of \<^verbatim>\<open>searchGroups\<close> (lines
  109 to 116), to the derivation pipeline on \<^verbatim>\<open>groups$\<close> (lines 118 to 136, with the
  current inner observable of its \<^verbatim>\<open>switchMap\<close>), and to the result of
  \<^verbatim>\<open>deleteGroup\<close> (lines 144 to 154).
\<close>

datatype Subscription =
    FetchSub
  | DeriveSub "Inner option"
  | DeleteSub Group

text \<open>
  The fields of the component, followed by what it acts on: the open subscriptions by
  identifier in the order of their creation, the next identifier, the request cache of
  the group service and the calls made so far. \<open>groups_S\<close>, \<open>groupsDto_S\<close> and
  \<open>pageInfoState_S\<close> are the current values of the three \<^verbatim>\<open>BehaviorSubject\<close>s;
  \<^term>\<open>None\<close> is the initial \<^verbatim>\<open>{}\<close> or \<^verbatim>\<open>undefined\<close>.
\<close>

record GroupsRegistryComponent =
  currentPage :: int
  pageSize :: int
  groups_S :: "RemoteData option"
  groupsDto_S :: "GroupDtoModel PaginatedList option"
  pageInfoState_S :: "PageInfo option"
  currentSearchQuery :: string
  subs :: "nat list"
  subscriptions :: "(nat \<times> Subscription) list"
  nextSubscription :: nat
  cachedRequests :: "(string \<times> int \<times> int) list"
  calls :: "ServiceCall list"

text \<open>
  The field initialisers and the constructor, lines 34 to 83. The search form, and the
  methods that only read (\<^verbatim>\<open>getMembers\<close>, \<^verbatim>\<open>getSubgroups\<close>,
  \<^verbatim>\<open>getOptionalComColFromName\<close>) or only reset the form and search
  (\<^verbatim>\<open>clearFormAndResetResult\<close>), are left out.
\<close>

definition constructor :: GroupsRegistryComponent where
  "constructor =
     \<lparr>currentPage = 1, pageSize = 5, groups_S = None, groupsDto_S = None,
      pageInfoState_S = None, currentSearchQuery = [], subs = [],
      subscriptions = [], nextSubscription = 0, cachedRequests = [], calls = []\<rparr>"

definition call :: "ServiceCall \<Rightarrow> GroupsRegistryComponent \<Rightarrow> GroupsRegistryComponent" where
  "call e c = c\<lparr>calls := calls c @ [e]\<rparr>"

definition subscribe :: "Subscription \<Rightarrow> GroupsRegistryComponent \<Rightarrow> GroupsRegistryComponent" where
  "subscribe s c =
     c\<lparr>subscriptions := subscriptions c @ [(nextSubscription c, s)],
       nextSubscription := Suc (nextSubscription c)\<rparr>"

definition unsubscribe :: "nat \<Rightarrow> GroupsRegistryComponent \<Rightarrow> GroupsRegistryComponent" where
  "unsubscribe sid c = c\<lparr>subscriptions := filter (\<lambda>(k, s). k \<noteq> sid) (subscriptions c)\<rparr>"

definition set_inner ::
  "nat \<Rightarrow> Inner option \<Rightarrow> GroupsRegistryComponent \<Rightarrow> GroupsRegistryComponent" where
  "set_inner sid inner c =
     c\<lparr>subscriptions :=
         map (\<lambda>(k, s). if k = sid then (k, DeriveSub inner) else (k, s)) (subscriptions c)\<rparr>"

subsection \<open>The group service\<close>

text \<open>
  Modelled from the spec: \<^verbatim>\<open>GroupDataService.searchGroups\<close> and
  \<^verbatim>\<open>GroupDataService.clearGroupsRequests\<close> are not among the source files. The spec
  says that a force refresh first invalidates any cached request before re-querying, and
  that after the invalidation the next fetch bypasses any cached result: a request that
  is cached is answered without a call to the backend, any other request goes to the
  backend and is cached, and clearing empties the cache.
\<close>

definition searchGroups ::
  "string \<Rightarrow> int \<Rightarrow> int \<Rightarrow> GroupsRegistryComponent \<Rightarrow> GroupsRegistryComponent" where
  "searchGroups query currentPage' elementsPerPage c =
     (let c1 = call (SearchGroups query currentPage' elementsPerPage) c
      in if (query, currentPage', elementsPerPage) \<in> set (cachedRequests c1) then c1
         else (call (RestRequest query currentPage' elementsPerPage) c1)
                \<lparr>cachedRequests := (query, currentPage', elementsPerPage) # cachedRequests c1\<rparr>)"

definition clearGroupsRequests :: "GroupsRegistryComponent \<Rightarrow> GroupsRegistryComponent" where
  "clearGroupsRequests c = (call ClearGroupsRequests c)\<lparr>cachedRequests := []\<rparr>"

subsection \<open>The subscribers\<close>

text \<open>
  A value of \<^verbatim>\<open>groups$\<close> arrives at the derivation pipeline of subscription \<open>sid\<close>
  (lines 118 to 132). \<^verbatim>\<open>getAllSucceededRemoteDataPayload\<close> (core/shared/operators, not
  among the sources) lets a succeeded value pass and hands on its payload;
  \<^verbatim>\<open>switchMap\<close> drops the inner observable it had and builds a new one, which asks
  \<^verbatim>\<open>isAuthorized\<close> for every entry of the page. Reading \<^verbatim>\<open>groups.page\<close> of a missing
  payload is a TypeError, which ends the subscription.
\<close>

definition isAuthorized_calls :: "Group option list \<Rightarrow> ServiceCall list" where
  "isAuthorized_calls groups =
     map (\<lambda>group. IsAuthorized_CanDelete
                     (case group of Some g \<Rightarrow> Some (group_self g) | None \<Rightarrow> None)) groups"

definition groups_pipeline ::
  "nat \<Rightarrow> RemoteData \<Rightarrow> GroupsRegistryComponent \<Rightarrow> GroupsRegistryComponent" where
  "groups_pipeline sid rd c =
     (if hasSucceeded rd then
        (case payload rd of
           None \<Rightarrow> call UncaughtTypeError (unsubscribe sid c)
         | Some groups \<Rightarrow>
             (set_inner sid (Some (switchMap_project groups)) c)
               \<lparr>calls := calls c @ isAuthorized_calls (page groups)\<rparr>)
      else c)"

text \<open>
  \<^verbatim>\<open>this.groups$.next(groupsRD)\<close>: the value is stored and handed to every open
  derivation pipeline, in the order of subscription.
\<close>

definition groups_next :: "RemoteData \<Rightarrow> GroupsRegistryComponent \<Rightarrow> GroupsRegistryComponent" where
  "groups_next rd c =
     foldl (\<lambda>c' (sid, s).
              case map_of (subscriptions c') sid of
                Some (DeriveSub inner) \<Rightarrow> groups_pipeline sid rd c'
              | _ \<Rightarrow> c')
       (c\<lparr>groups_S := Some rd\<rparr>) (subscriptions c)"

text \<open>
  The subscriber of lines 112 to 115, run when the \<^verbatim>\<open>searchGroups\<close> observable of the
  open subscription \<open>sid\<close> emits. Reading \<^verbatim>\<open>groupsRD.payload.pageInfo\<close> of a missing
  payload is a TypeError, which ends the subscription.
\<close>

definition searchGroups_next ::
  "nat \<Rightarrow> RemoteData \<Rightarrow> GroupsRegistryComponent \<Rightarrow> GroupsRegistryComponent" where
  "searchGroups_next sid groupsRD c =
     (case map_of (subscriptions c) sid of
        Some FetchSub \<Rightarrow>
          (let c1 = groups_next groupsRD c
           in case payload groupsRD of
                None \<Rightarrow> call UncaughtTypeError (unsubscribe sid c1)
              | Some p \<Rightarrow> c1\<lparr>pageInfoState_S := Some (pageInfo p)\<rparr>)
      | _ \<Rightarrow> c)"

text \<open>The subscriber of lines 133 to 136, run when the derivation pipeline emits.\<close>

definition groupsDto_next ::
  "GroupDtoModel PaginatedList \<Rightarrow> GroupsRegistryComponent \<Rightarrow> GroupsRegistryComponent" where
  "groupsDto_next v c = c\<lparr>groupsDto_S := Some v, pageInfoState_S := Some (pageInfo v)\<rparr>"

text \<open>
  The authorization query of the \<open>i\<close>-th group of the current inner observable of the
  open derivation subscription \<open>sid\<close> emits.
\<close>

definition isAuthorized_next ::
  "nat \<Rightarrow> nat \<Rightarrow> bool \<Rightarrow> GroupsRegistryComponent \<Rightarrow> GroupsRegistryComponent" where
  "isAuthorized_next sid i authorized c =
     (case map_of (subscriptions c) sid of
        Some (DeriveSub (Some inner)) \<Rightarrow>
          (case isAuthorized_emits i authorized inner of
             (inner', out) \<Rightarrow>
               (let c1 = set_inner sid (Some inner') c
                in case out of None \<Rightarrow> c1 | Some v \<Rightarrow> groupsDto_next v c1))
      | _ \<Rightarrow> c)"

subsection \<open>The methods\<close>

definition messagePrefix :: string where
  "messagePrefix = ''admin.access-control.groups.''"

text \<open>
  \<^verbatim>\<open>search(data)\<close>, lines 102 to 137, in its three steps; \<open>query\<close> is
  \<^verbatim>\<open>data.query\<close>. Lines 103 to 108 store a new query and reset the page. Lines 109 to
  116 call \<^verbatim>\<open>searchGroups\<close>, subscribe to its result and push the subscription onto
  \<^verbatim>\<open>subs\<close>. Lines 118 to 136 subscribe the derivation pipeline to \<^verbatim>\<open>groups$\<close> and
  push that subscription; the new subscriber of the \<^verbatim>\<open>BehaviorSubject\<close> is handed its
  current value at once, and the initial \<^verbatim>\<open>{}\<close> has not succeeded and is filtered out.
\<close>

definition search_setQuery ::
  "string option \<Rightarrow> GroupsRegistryComponent \<Rightarrow> GroupsRegistryComponent" where
  "search_setQuery query c =
     (case query of
        None \<Rightarrow> c
      | Some q \<Rightarrow>
          if currentSearchQuery c \<noteq> q
          then (call NavigateByUrl_GroupRegistryRouterLink c)
                 \<lparr>currentSearchQuery := q, currentPage := 1\<rparr>
          else c)"

definition search_fetch :: "GroupsRegistryComponent \<Rightarrow> GroupsRegistryComponent" where
  "search_fetch c =
     (let c2 = searchGroups (js_trim (currentSearchQuery c)) (currentPage c) (pageSize c) c;
          fetchSub = nextSubscription c2;
          c3 = subscribe FetchSub c2
      in c3\<lparr>subs := subs c3 @ [fetchSub]\<rparr>)"

definition search_derive :: "GroupsRegistryComponent \<Rightarrow> GroupsRegistryComponent" where
  "search_derive c =
     (let deriveSub = nextSubscription c;
          c5 = subscribe (DeriveSub None) c;
          c6 = (case groups_S c5 of None \<Rightarrow> c5 | Some rd \<Rightarrow> groups_pipeline deriveSub rd c5)
      in c6\<lparr>subs := subs c6 @ [deriveSub]\<rparr>)"

definition search :: "string option \<Rightarrow> GroupsRegistryComponent \<Rightarrow> GroupsRegistryComponent" where
  "search query c = search_derive (search_fetch (search_setQuery query c))"

text \<open>\<^verbatim>\<open>ngOnInit()\<close>, lines 85 to 87, and \<^verbatim>\<open>onPageChange(event)\<close>, lines 93 to 96.\<close>

definition ngOnInit :: "GroupsRegistryComponent \<Rightarrow> GroupsRegistryComponent" where
  "ngOnInit c = search (Some (currentSearchQuery c)) c"

definition onPageChange :: "int \<Rightarrow> GroupsRegistryComponent \<Rightarrow> GroupsRegistryComponent" where
  "onPageChange event c =
     (let c1 = c\<lparr>currentPage := event\<rparr> in search (Some (currentSearchQuery c1)) c1)"

text \<open>\<^verbatim>\<open>forceUpdateGroup()\<close>, lines 161 to 164.\<close>

definition forceUpdateGroup :: "GroupsRegistryComponent \<Rightarrow> GroupsRegistryComponent" where
  "forceUpdateGroup c =
     (let c1 = clearGroupsRequests c in search (Some (currentSearchQuery c1)) c1)"

text \<open>
  \<^verbatim>\<open>deleteGroup(group)\<close>, lines 142 to 156: the call on the group service and the
  subscription to its result, which is not pushed onto \<^verbatim>\<open>subs\<close>.
\<close>

definition deleteGroup :: "Group \<Rightarrow> GroupsRegistryComponent \<Rightarrow> GroupsRegistryComponent" where
  "deleteGroup g c =
     (if hasValue (group_id g) then subscribe (DeleteSub g) (call (DeleteGroup g) c) else c)"

text \<open>
  The subscriber of lines 145 to 154, run when the \<^verbatim>\<open>deleteGroup\<close> observable of the
  open subscription \<open>sid\<close> emits \<^verbatim>\<open>[success, optionalErrorMessage]\<close>; \<^verbatim>\<open>take(1)\<close> ends
  the subscription after this first value.
\<close>

definition deleteGroup_next ::
  "nat \<Rightarrow> bool \<Rightarrow> string option \<Rightarrow> GroupsRegistryComponent \<Rightarrow> GroupsRegistryComponent" where
  "deleteGroup_next sid success optionalErrorMessage c =
     (case map_of (subscriptions c) sid of
        Some (DeleteSub g) \<Rightarrow>
          unsubscribe sid
            (if success then
               forceUpdateGroup
                 (call (NotifySuccess
                          (Translate (messagePrefix @ ''notification.deleted.success'')
                             [(''name'', Some (group_name g))])) c)
             else
               call (NotifyError
                       (Translate (messagePrefix @ ''notification.deleted.failure.title'')
                          [(''name'', Some (group_name g))])
                       (Translate (messagePrefix @ ''notification.deleted.failure.content'')
                          [(''cause'', optionalErrorMessage)])) c)
      | _ \<Rightarrow> c)"

text \<open>\<^verbatim>\<open>cleanupSubscribes()\<close> and \<^verbatim>\<open>ngOnDestroy()\<close>, lines 204 to 210.\<close>

definition cleanupSubscribes :: "GroupsRegistryComponent \<Rightarrow> GroupsRegistryComponent" where
  "cleanupSubscribes c = foldl (\<lambda>c' sub. unsubscribe sub c') c (subs c)"

definition ngOnDestroy :: "GroupsRegistryComponent \<Rightarrow> GroupsRegistryComponent" where
  "ngOnDestroy c = cleanupSubscribes c"

subsection \<open>Runs of the component\<close>

text \<open>
  What can happen to a component: a method is called, or an observable that one of its
  open subscriptions listens to emits. An emission addressed to a subscription that is
  no longer open is not delivered.
\<close>

datatype Event =
    Call_ngOnInit
  | Call_onPageChange int
  | Call_search "string option"
  | Call_deleteGroup Group
  | Call_forceUpdateGroup
  | Call_ngOnDestroy
  | Emit_searchGroups nat RemoteData
  | Emit_isAuthorized nat nat bool
  | Emit_deleteGroup nat bool "string option"

fun step :: "Event \<Rightarrow> GroupsRegistryComponent \<Rightarrow> GroupsRegistryComponent" where
  "step Call_ngOnInit c = ngOnInit c"
| "step (Call_onPageChange event) c = onPageChange event c"
| "step (Call_search query) c = search query c"
| "step (Call_deleteGroup g) c = deleteGroup g c"
| "step Call_forceUpdateGroup c = forceUpdateGroup c"
| "step Call_ngOnDestroy c = ngOnDestroy c"
| "step (Emit_searchGroups sid rd) c = searchGroups_next sid rd c"
| "step (Emit_isAuthorized sid i authorized) c = isAuthorized_next sid i authorized c"
| "step (Emit_deleteGroup sid success msg) c = deleteGroup_next sid success msg c"

definition run :: "Event list \<Rightarrow> GroupsRegistryComponent \<Rightarrow> GroupsRegistryComponent" where
  "run evs c = foldl (\<lambda>c' e. step e c') c evs"

subsection \<open>Auxiliary notions for stating the properties\<close>

text \<open>
  The calls made when a value of \<^verbatim>\<open>groups$\<close> is handed to one derivation pipeline:
  what \<^term>\<open>groups_pipeline\<close> appends to the calls.
\<close>

definition replay_calls :: "RemoteData option \<Rightarrow> ServiceCall list" where
  "replay_calls v =
     (case v of None \<Rightarrow> []
      | Some rd \<Rightarrow>
          if hasSucceeded rd
          then (case payload rd of None \<Rightarrow> [UncaughtTypeError]
                | Some groups \<Rightarrow> isAuthorized_calls (page groups))
          else [])"

text \<open>
  The latest answer of the authorization query of the \<open>i\<close>-th group among the answers
  \<open>evs\<close> (pairs of an index and an answer, in the order of arrival), \<^term>\<open>None\<close> when it
  has not answered; and the DTOs that these latest answers give for a page.
\<close>

definition latest_answer :: "nat \<Rightarrow> (nat \<times> bool) list \<Rightarrow> bool option" where
  "latest_answer i evs =
     (if filter (\<lambda>ev. fst ev = i) evs = [] then None
      else Some (snd (last (filter (\<lambda>ev. fst ev = i) evs))))"

definition latest_dtos :: "Group option list \<Rightarrow> (nat \<times> bool) list \<Rightarrow> GroupDtoModel option list" where
  "latest_dtos groups evs =
     map (\<lambda>i. map_option (\<lambda>b. mkGroupDtoModel b (groups ! i)) (latest_answer i evs))
       [0..<length groups]"

section \<open>Properties of the RSS feed component\<close>

text \<open>
  C3: \<^verbatim>\<open>formulateRoute\<close> called with uuid "abc", opensearch service "svc", sort field
  "score", sort direction "desc" and the empty query returns exactly
  \<^verbatim>\<open>/svc/search?format=atom&scope=abc&sort=score&sort_direction=desc&query=*\<close>.
\<close>

theorem formulateRoute_example:
  "formulateRoute (Some ''abc'') ''svc''
     \<lparr>field = Some ''score'', direction = Some ''desc''\<rparr> (Some '''')
   = ''/svc/search?format=atom&scope=abc&sort=score&sort_direction=desc&query=*''"
  by (simp add: formulateRoute_def js_truthy_def js_toString_def)

text \<open>
  C4: for every uuid, opensearch service, sort options and query, the route is
  \<^verbatim>\<open>/<service>/search?format=atom\<close>, followed by \<^verbatim>\<open>&scope=<uuid>\<close> exactly when the
  uuid is present, followed by \<^verbatim>\<open>&sort=<field>&sort_direction=<dir>\<close> exactly when the
  sort field and the sort direction are both present, followed by \<^verbatim>\<open>&query=\<close> and the
  query when it is non-empty or \<^verbatim>\<open>*\<close> when it is empty. A value is present when it is
  neither undefined, null nor the empty string, which is the source's test.
\<close>

theorem formulateRoute_form:
  "formulateRoute u svc so q =
     ''/'' @ svc @ ''/search?format=atom''
     @ (case u of Some v \<Rightarrow> if v \<noteq> [] then ''&scope='' @ v else [] | None \<Rightarrow> [])
     @ (case (field so, direction so) of
          (Some f, Some d) \<Rightarrow>
            if f \<noteq> [] \<and> d \<noteq> [] then ''&sort='' @ f @ ''&sort_direction='' @ d else []
        | _ \<Rightarrow> [])
     @ ''&query=''
     @ (case q of Some v \<Rightarrow> if v \<noteq> [] then v else ''*'' | None \<Rightarrow> ''*'')"
  by (simp add: formulateRoute_def js_truthy_def js_toString_def Let_def split: option.splits)

subsection \<open>The first occurrence of a substring\<close>

lemma js_startsWith_iff: "js_startsWith s p \<longleftrightarrow> (\<exists>r. s = p @ r)"
  by (induction s p rule: js_startsWith.induct) auto

lemma js_indexOf_occurs:
  "js_indexOf s p = Some k \<Longrightarrow> k \<le> length s \<and> (\<exists>post. s = take k s @ p @ post)"
proof (induction s arbitrary: k)
  case Nil
  then show ?case by (simp split: if_splits)
next
  case (Cons c cs)
  show ?case
  proof (cases "js_startsWith (c # cs) p")
    case True
    with Cons.prems have "k = 0" by simp
    with True show ?thesis by (simp add: js_startsWith_iff)
  next
    case False
    with Cons.prems obtain j where j: "js_indexOf cs p = Some j" "k = Suc j"
      by auto
    from Cons.IH [OF j(1)] j(2) show ?thesis by auto
  qed
qed

lemma js_indexOf_least:
  "js_indexOf s p = Some k \<Longrightarrow> s = pre @ p @ post \<Longrightarrow> k \<le> length pre"
proof (induction s arbitrary: k pre)
  case Nil
  then show ?case by (simp split: if_splits)
next
  case (Cons c cs)
  show ?case
  proof (cases "js_startsWith (c # cs) p")
    case True
    with Cons.prems(1) have "k = 0" by simp
    then show ?thesis by simp
  next
    case False
    with Cons.prems(1) obtain j where j: "js_indexOf cs p = Some j" "k = Suc j"
      by auto
    from False Cons.prems(2) have "pre \<noteq> []"
      by (auto simp: js_startsWith_iff)
    then obtain pre' where pre: "pre = c # pre'" "cs = pre' @ p @ post"
      using Cons.prems(2) by (cases pre) auto
    from Cons.IH [OF j(1) pre(2)] j(2) pre(1) show ?thesis by simp
  qed
qed

lemma js_indexOf_minimal:
  "js_indexOf s p = Some k \<Longrightarrow> \<forall>pre' post'. s = pre' @ p @ post' \<longrightarrow> k \<le> length pre'"
  using js_indexOf_least by blast

lemma js_indexOf_found: "\<exists>k. js_indexOf (pre @ p @ post) p = Some k"
proof (induction pre)
  case Nil
  have "js_startsWith (p @ post) p" by (simp add: js_startsWith_iff)
  then show ?case by (cases "p @ post") auto
next
  case (Cons c pre)
  then show ?case by auto
qed

lemma js_indexOf_first:
  assumes "\<forall>pre' post'. pre @ p @ post = pre' @ p @ post' \<longrightarrow> length pre \<le> length pre'"
  shows "js_indexOf (pre @ p @ post) p = Some (length pre)"
proof -
  obtain k where k: "js_indexOf (pre @ p @ post) p = Some k"
    using js_indexOf_found by blast
  have le: "k \<le> length pre" using js_indexOf_least [OF k refl] .
  from js_indexOf_occurs [OF k] obtain post' where
    "k \<le> length (pre @ p @ post)" and "pre @ p @ post = take k (pre @ p @ post) @ p @ post'"
    by blast
  with assms have "length pre \<le> length (take k (pre @ p @ post))" by blast
  with le have "k = length pre" by simp
  with k show ?thesis by simp
qed

lemma js_replace_first:
  assumes "\<forall>pre' post'. pre @ p @ post = pre' @ p @ post' \<longrightarrow> length pre \<le> length pre'"
  shows "js_replace (pre @ p @ post) p r = pre @ r @ post"
  by (simp add: js_replace_def js_indexOf_first [OF assms])

lemma js_replace_absent:
  "\<forall>pre post. s \<noteq> pre @ p @ post \<Longrightarrow> js_replace s p r = s"
  by (cases "js_indexOf s p") (auto simp: js_replace_def dest!: js_indexOf_occurs)

lemma js_indexOf_example:
  "js_indexOf ''/svc/search?format=atom&query=*'' ''format=atom'' = Some (length ''/svc/search?'')"
  by simp

text \<open>
  C5: for every route handed to \<^verbatim>\<open>addLinks\<close>, the Atom link is registered with the
  route as it is and the RSS link registered alongside it with the same route in which
  the substring \<^verbatim>\<open>format=atom\<close> is replaced by \<^verbatim>\<open>format=rss\<close>: whatever stands
  before (\<open>pre\<close>) and after (\<open>post\<close>) the first occurrence of \<^verbatim>\<open>format=atom\<close> is the
  same in both.
\<close>

theorem addLinks_rss_variant:
  assumes "route = pre @ ''format=atom'' @ post"
    and "\<forall>pre' post'. route = pre' @ ''format=atom'' @ post' \<longrightarrow> length pre \<le> length pre'"
  shows "head_links (addLinks route c) =
           head_links c @
             [\<lparr>link_href = pre @ ''format=atom'' @ post, link_type = ''application/atom+xml'',
               link_rel = ''alternate'', link_title = ''Sitewide Atom feed''\<rparr>,
              \<lparr>link_href = pre @ ''format=rss'' @ post, link_type = ''application/rss+xml'',
               link_rel = ''alternate'', link_title = ''Sitewide RSS feed''\<rparr>]"
proof -
  have "js_replace route ''format=atom'' ''format=rss'' = pre @ ''format=rss'' @ post"
    using assms js_replace_first [of pre "''format=atom''" post "''format=rss''"] by simp
  then show ?thesis
    using assms(1) by (simp add: addLinks_def addTag_def atom_link_def rss_link_def Let_def)
qed

theorem addLinks_rss_variant_witness:
  "head_links (addLinks ''/svc/search?format=atom&query=*''
       \<lparr>route_S = None, isEnabled_S = False, uuid = None, head_links = []\<rparr>) =
     [\<lparr>link_href = ''/svc/search?format=atom&query=*'', link_type = ''application/atom+xml'',
       link_rel = ''alternate'', link_title = ''Sitewide Atom feed''\<rparr>,
      \<lparr>link_href = ''/svc/search?format=rss&query=*'', link_type = ''application/rss+xml'',
       link_rel = ''alternate'', link_title = ''Sitewide RSS feed''\<rparr>]"
proof -
  have first: "\<forall>pre' post'. ''/svc/search?format=atom&query=*'' = pre' @ ''format=atom'' @ post'
      \<longrightarrow> length ''/svc/search?'' \<le> length pre'"
    by (rule js_indexOf_minimal [OF js_indexOf_example])
  have split: "''/svc/search?format=atom&query=*'' = ''/svc/search?'' @ ''format=atom'' @ ''&query=*''"
    by simp
  show ?thesis
    using addLinks_rss_variant [OF split first] by simp
qed

subsection \<open>The head links over the life of the view\<close>

lemma selector_rel_alternate:
  "selector_matches (''rel='' @ quoted ''alternate'') t \<longleftrightarrow> link_rel t = ''alternate''"
  by (auto simp: selector_matches_def quoted_def)

text \<open>
  C9, as the code has it: when the view is activated and the service context, the query
  and the sort options have arrived, the component appends to the head the Atom link with
  type \<^verbatim>\<open>application/atom+xml\<close> and the RSS link with type \<^verbatim>\<open>application/rss+xml\<close>,
  both with rel \<^verbatim>\<open>alternate\<close>, and a link with rel \<^verbatim>\<open>search\<close>. On teardown it removes
  every link of the head whose rel is \<^verbatim>\<open>alternate\<close>, whoever registered it, and leaves
  every other link (its own search link among them) and its own fields as they were.
\<close>

theorem rss_head_links_lifecycle:
  "head_links (ngOnInit_sort baseUrl routerUuid svc so q c) =
     head_links c @
       [\<lparr>link_href = baseUrl @ formulateRoute routerUuid svc so q,
         link_type = ''application/atom+xml'', link_rel = ''alternate'',
         link_title = ''Sitewide Atom feed''\<rparr>,
        \<lparr>link_href = js_replace (baseUrl @ formulateRoute routerUuid svc so q)
                       ''format=atom'' ''format=rss'',
         link_type = ''application/rss+xml'', link_rel = ''alternate'',
         link_title = ''Sitewide RSS feed''\<rparr>,
        \<lparr>link_href = baseUrl @ ''/'' @ svc @ ''/service'',
         link_type = ''application/atom+xml'', link_rel = ''search'',
         link_title = ''Dspace''\<rparr>]
   \<and> head_links (rss_ngOnDestroy c') =
       filter (\<lambda>t. link_rel t \<noteq> ''alternate'') (head_links c')
   \<and> route_S (rss_ngOnDestroy c') = route_S c'
   \<and> isEnabled_S (rss_ngOnDestroy c') = isEnabled_S c'
   \<and> uuid (rss_ngOnDestroy c') = uuid c'"
  unfolding rss_ngOnDestroy_def removeTag_def selector_rel_alternate
  by (simp add: ngOnInit_sort_def addLinks_def addTag_def atom_link_def rss_link_def
      search_link_def Let_def)

text \<open>
  C9 as stated fails: a head that already holds an alternate link of another origin
  (here a language alternate) loses it on teardown, so the head state other than the
  component's own feed links is not left unchanged.
\<close>

theorem rss_ngOnDestroy_foreign_link_counterexample:
  "head_links
     (rss_ngOnDestroy
        (ngOnInit_sort ''http://h'' None ''svc'' \<lparr>field = None, direction = None\<rparr> None
           \<lparr>route_S = None, isEnabled_S = False, uuid = None,
            head_links = [\<lparr>link_href = ''/es'', link_type = ''text/html'',
                            link_rel = ''alternate'', link_title = ''Spanish''\<rparr>]\<rparr>))
   = [\<lparr>link_href = ''http://h/svc/service'', link_type = ''application/atom+xml'',
       link_rel = ''search'', link_title = ''Dspace''\<rparr>]"
  unfolding rss_ngOnDestroy_def removeTag_def selector_rel_alternate
  by (simp add: ngOnInit_sort_def addLinks_def addTag_def atom_link_def rss_link_def
      search_link_def Let_def)

section \<open>Properties of the groups registry component\<close>

text \<open>
  C10: for a group whose id has no value, \<^verbatim>\<open>deleteGroup\<close> does nothing: no call on a
  service (no delete request, no notification), no subscription, no change of a field.
\<close>

theorem deleteGroup_without_id:
  "group_id g = None \<Longrightarrow> deleteGroup g c = c"
  by (simp add: deleteGroup_def hasValue_def)

theorem deleteGroup_without_id_witness:
  "deleteGroup \<lparr>group_id = None, group_name = ''Editors'', group_self = ''/groups/7''\<rparr> constructor
   = constructor"
  using deleteGroup_without_id
    [of "\<lparr>group_id = None, group_name = ''Editors'', group_self = ''/groups/7''\<rparr>" constructor]
  by simp

subsection \<open>The calls and the fields after a search\<close>

text \<open>What each step leaves as it was, and the calls it appends.\<close>

lemma call_fields:
  "currentPage (call e c) = currentPage c"
  "pageSize (call e c) = pageSize c"
  "groups_S (call e c) = groups_S c"
  "groupsDto_S (call e c) = groupsDto_S c"
  "pageInfoState_S (call e c) = pageInfoState_S c"
  "currentSearchQuery (call e c) = currentSearchQuery c"
  "subs (call e c) = subs c"
  "subscriptions (call e c) = subscriptions c"
  "nextSubscription (call e c) = nextSubscription c"
  "cachedRequests (call e c) = cachedRequests c"
  "calls (call e c) = calls c @ [e]"
  by (simp_all add: call_def)

lemma subscribe_fields:
  "currentPage (subscribe s c) = currentPage c"
  "pageSize (subscribe s c) = pageSize c"
  "groups_S (subscribe s c) = groups_S c"
  "groupsDto_S (subscribe s c) = groupsDto_S c"
  "pageInfoState_S (subscribe s c) = pageInfoState_S c"
  "currentSearchQuery (subscribe s c) = currentSearchQuery c"
  "subs (subscribe s c) = subs c"
  "subscriptions (subscribe s c) = subscriptions c @ [(nextSubscription c, s)]"
  "nextSubscription (subscribe s c) = Suc (nextSubscription c)"
  "cachedRequests (subscribe s c) = cachedRequests c"
  "calls (subscribe s c) = calls c"
  by (simp_all add: subscribe_def)

lemma unsubscribe_fields:
  "currentPage (unsubscribe sid c) = currentPage c"
  "pageSize (unsubscribe sid c) = pageSize c"
  "groups_S (unsubscribe sid c) = groups_S c"
  "groupsDto_S (unsubscribe sid c) = groupsDto_S c"
  "pageInfoState_S (unsubscribe sid c) = pageInfoState_S c"
  "currentSearchQuery (unsubscribe sid c) = currentSearchQuery c"
  "subs (unsubscribe sid c) = subs c"
  "nextSubscription (unsubscribe sid c) = nextSubscription c"
  "cachedRequests (unsubscribe sid c) = cachedRequests c"
  "calls (unsubscribe sid c) = calls c"
  by (simp_all add: unsubscribe_def)

lemma set_inner_fields:
  "currentPage (set_inner sid i c) = currentPage c"
  "pageSize (set_inner sid i c) = pageSize c"
  "groups_S (set_inner sid i c) = groups_S c"
  "groupsDto_S (set_inner sid i c) = groupsDto_S c"
  "pageInfoState_S (set_inner sid i c) = pageInfoState_S c"
  "currentSearchQuery (set_inner sid i c) = currentSearchQuery c"
  "subs (set_inner sid i c) = subs c"
  "nextSubscription (set_inner sid i c) = nextSubscription c"
  "cachedRequests (set_inner sid i c) = cachedRequests c"
  "calls (set_inner sid i c) = calls c"
  by (simp_all add: set_inner_def)

lemma searchGroups_fields:
  "currentPage (searchGroups q p n c) = currentPage c"
  "pageSize (searchGroups q p n c) = pageSize c"
  "groups_S (searchGroups q p n c) = groups_S c"
  "groupsDto_S (searchGroups q p n c) = groupsDto_S c"
  "pageInfoState_S (searchGroups q p n c) = pageInfoState_S c"
  "currentSearchQuery (searchGroups q p n c) = currentSearchQuery c"
  "subs (searchGroups q p n c) = subs c"
  "subscriptions (searchGroups q p n c) = subscriptions c"
  "nextSubscription (searchGroups q p n c) = nextSubscription c"
  by (simp_all add: searchGroups_def Let_def call_fields)

lemma searchGroups_calls:
  "calls (searchGroups q p n c) =
     calls c @ SearchGroups q p n # (if (q, p, n) \<in> set (cachedRequests c) then [] else [RestRequest q p n])"
  by (simp add: searchGroups_def Let_def call_fields)

lemma isAuthorized_calls_no_fetch:
  "SearchGroups query p n \<notin> set (isAuthorized_calls gs)"
  "RestRequest query p n \<notin> set (isAuthorized_calls gs)"
  "ClearGroupsRequests \<notin> set (isAuthorized_calls gs)"
  "DeleteGroup g \<notin> set (isAuthorized_calls gs)"
  by (auto simp: isAuthorized_calls_def)

lemma replay_calls_no_fetch:
  "SearchGroups query p n \<notin> set (replay_calls v)"
  "RestRequest query p n \<notin> set (replay_calls v)"
  "ClearGroupsRequests \<notin> set (replay_calls v)"
  "DeleteGroup g \<notin> set (replay_calls v)"
  by (simp_all add: replay_calls_def isAuthorized_calls_no_fetch split: option.splits)

lemma groups_pipeline_fields:
  "currentPage (groups_pipeline sid rd c) = currentPage c"
  "pageSize (groups_pipeline sid rd c) = pageSize c"
  "groups_S (groups_pipeline sid rd c) = groups_S c"
  "groupsDto_S (groups_pipeline sid rd c) = groupsDto_S c"
  "pageInfoState_S (groups_pipeline sid rd c) = pageInfoState_S c"
  "currentSearchQuery (groups_pipeline sid rd c) = currentSearchQuery c"
  "subs (groups_pipeline sid rd c) = subs c"
  "nextSubscription (groups_pipeline sid rd c) = nextSubscription c"
  "cachedRequests (groups_pipeline sid rd c) = cachedRequests c"
  by (simp_all add: groups_pipeline_def call_fields unsubscribe_fields set_inner_fields
      split: option.splits)

lemma groups_pipeline_calls:
  "calls (groups_pipeline sid rd c) = calls c @ replay_calls (Some rd)"
  by (simp add: groups_pipeline_def replay_calls_def call_fields unsubscribe_fields
      set_inner_fields split: option.splits)

lemma search_setQuery_fields:
  "currentSearchQuery (search_setQuery query c) =
     (case query of None \<Rightarrow> currentSearchQuery c | Some q \<Rightarrow> q)"
  "currentPage (search_setQuery query c) =
     (case query of None \<Rightarrow> currentPage c
      | Some q \<Rightarrow> if currentSearchQuery c \<noteq> q then 1 else currentPage c)"
  "pageSize (search_setQuery query c) = pageSize c"
  "groups_S (search_setQuery query c) = groups_S c"
  "groupsDto_S (search_setQuery query c) = groupsDto_S c"
  "pageInfoState_S (search_setQuery query c) = pageInfoState_S c"
  "cachedRequests (search_setQuery query c) = cachedRequests c"
  "calls (search_setQuery query c) =
     calls c @ (case query of None \<Rightarrow> []
                | Some q \<Rightarrow> if currentSearchQuery c \<noteq> q
                            then [NavigateByUrl_GroupRegistryRouterLink] else [])"
  by (simp_all add: search_setQuery_def call_fields split: option.splits)

lemma search_fetch_fields:
  "currentSearchQuery (search_fetch c) = currentSearchQuery c"
  "currentPage (search_fetch c) = currentPage c"
  "pageSize (search_fetch c) = pageSize c"
  "groups_S (search_fetch c) = groups_S c"
  "groupsDto_S (search_fetch c) = groupsDto_S c"
  "pageInfoState_S (search_fetch c) = pageInfoState_S c"
  "calls (search_fetch c) =
     calls c @ SearchGroups (js_trim (currentSearchQuery c)) (currentPage c) (pageSize c)
       # (if (js_trim (currentSearchQuery c), currentPage c, pageSize c) \<in> set (cachedRequests c)
          then []
          else [RestRequest (js_trim (currentSearchQuery c)) (currentPage c) (pageSize c)])"
  by (simp_all add: search_fetch_def Let_def subscribe_fields searchGroups_fields
      searchGroups_calls)

lemma search_derive_fields:
  "currentSearchQuery (search_derive c) = currentSearchQuery c"
  "currentPage (search_derive c) = currentPage c"
  "pageSize (search_derive c) = pageSize c"
  "groups_S (search_derive c) = groups_S c"
  "groupsDto_S (search_derive c) = groupsDto_S c"
  "pageInfoState_S (search_derive c) = pageInfoState_S c"
  "calls (search_derive c) = calls c @ replay_calls (groups_S c)"
  by (simp_all add: search_derive_def Let_def subscribe_fields groups_pipeline_fields
      groups_pipeline_calls replay_calls_def split: option.splits)

lemma search_fields:
  "currentSearchQuery (search query c) =
     (case query of None \<Rightarrow> currentSearchQuery c | Some q \<Rightarrow> q)"
  "currentPage (search query c) =
     (case query of None \<Rightarrow> currentPage c
      | Some q \<Rightarrow> if currentSearchQuery c \<noteq> q then 1 else currentPage c)"
  "pageSize (search query c) = pageSize c"
  "groups_S (search query c) = groups_S c"
  "groupsDto_S (search query c) = groupsDto_S c"
  "pageInfoState_S (search query c) = pageInfoState_S c"
  by (simp_all add: search_def search_derive_fields search_fetch_fields search_setQuery_fields)

lemma search_calls:
  "calls (search query c) =
     calls (search_setQuery query c)
     @ SearchGroups (js_trim (currentSearchQuery (search_setQuery query c)))
         (currentPage (search_setQuery query c)) (pageSize c)
     # (if (js_trim (currentSearchQuery (search_setQuery query c)),
            currentPage (search_setQuery query c), pageSize c) \<in> set (cachedRequests c)
        then []
        else [RestRequest (js_trim (currentSearchQuery (search_setQuery query c)))
                (currentPage (search_setQuery query c)) (pageSize c)])
     @ replay_calls (groups_S c)"
  by (simp add: search_def search_derive_fields search_fetch_fields
      search_setQuery_fields(3,4,7))

text \<open>
  C2: when \<^verbatim>\<open>search(data)\<close> is called with a query that is not null and differs from
  the stored search query, the current page is 1 afterwards, and the one fetch that the
  call issues (right after the navigation) asks for page 1, with the new query trimmed.
\<close>

theorem search_new_query_resets_page:
  assumes "currentSearchQuery c \<noteq> q"
  shows "currentPage (search (Some q) c) = 1
       \<and> currentSearchQuery (search (Some q) c) = q
       \<and> (\<exists>rest. calls (search (Some q) c) =
             calls c @ [NavigateByUrl_GroupRegistryRouterLink,
                        SearchGroups (js_trim q) 1 (pageSize c)] @ rest
           \<and> (\<forall>query p n. SearchGroups query p n \<notin> set rest))"
  using assms
  by (simp add: search_calls search_fields search_setQuery_fields replay_calls_no_fetch)

theorem search_new_query_resets_page_witness:
  "currentPage (search (Some ''admin'') (constructor\<lparr>currentPage := 3\<rparr>)) = 1
   \<and> currentSearchQuery (search (Some ''admin'') (constructor\<lparr>currentPage := 3\<rparr>)) = ''admin''
   \<and> (\<exists>rest. calls (search (Some ''admin'') (constructor\<lparr>currentPage := 3\<rparr>)) =
          [NavigateByUrl_GroupRegistryRouterLink, SearchGroups ''admin'' 1 5] @ rest
        \<and> (\<forall>query p n. SearchGroups query p n \<notin> set rest))"
proof -
  have ne: "currentSearchQuery (constructor\<lparr>currentPage := 3\<rparr>) \<noteq> ''admin''"
    by (simp add: constructor_def)
  have trim: "js_trim ''admin'' = ''admin''"
    by (simp add: js_trim_def js_isWhiteSpace_def)
  have init: "calls (constructor\<lparr>currentPage := 3\<rparr>) = []"
    "pageSize (constructor\<lparr>currentPage := 3\<rparr>) = 5"
    by (simp_all add: constructor_def)
  show ?thesis
    using search_new_query_resets_page [OF ne] by (simp only: trim init append_Nil)
qed

subsection \<open>Force update\<close>

lemma clearGroupsRequests_fields:
  "currentSearchQuery (clearGroupsRequests c) = currentSearchQuery c"
  "currentPage (clearGroupsRequests c) = currentPage c"
  "pageSize (clearGroupsRequests c) = pageSize c"
  "groups_S (clearGroupsRequests c) = groups_S c"
  "groupsDto_S (clearGroupsRequests c) = groupsDto_S c"
  "pageInfoState_S (clearGroupsRequests c) = pageInfoState_S c"
  "cachedRequests (clearGroupsRequests c) = []"
  "calls (clearGroupsRequests c) = calls c @ [ClearGroupsRequests]"
  by (simp_all add: clearGroupsRequests_def call_fields)

lemma forceUpdateGroup_fields:
  "currentSearchQuery (forceUpdateGroup c) = currentSearchQuery c"
  "currentPage (forceUpdateGroup c) = currentPage c"
  "pageSize (forceUpdateGroup c) = pageSize c"
  "groups_S (forceUpdateGroup c) = groups_S c"
  "groupsDto_S (forceUpdateGroup c) = groupsDto_S c"
  "pageInfoState_S (forceUpdateGroup c) = pageInfoState_S c"
  by (simp_all add: forceUpdateGroup_def Let_def search_fields clearGroupsRequests_fields)

lemma forceUpdateGroup_calls:
  "calls (forceUpdateGroup c) =
     calls c
     @ [ClearGroupsRequests,
        SearchGroups (js_trim (currentSearchQuery c)) (currentPage c) (pageSize c),
        RestRequest (js_trim (currentSearchQuery c)) (currentPage c) (pageSize c)]
     @ replay_calls (groups_S c)"
  by (simp add: forceUpdateGroup_def Let_def search_calls search_setQuery_fields
      clearGroupsRequests_fields)

text \<open>
  C7: every call of \<^verbatim>\<open>forceUpdateGroup\<close> first clears the cached group requests and
  then issues one search with the stored query and the current page, both unchanged;
  whatever the request cache held before, that search goes to the backend.
\<close>

theorem forceUpdateGroup_clears_then_fetches:
  "(\<exists>rest. calls (forceUpdateGroup c) =
       calls c
       @ [ClearGroupsRequests,
          SearchGroups (js_trim (currentSearchQuery c)) (currentPage c) (pageSize c),
          RestRequest (js_trim (currentSearchQuery c)) (currentPage c) (pageSize c)]
       @ rest
     \<and> (\<forall>query p n. SearchGroups query p n \<notin> set rest \<and> RestRequest query p n \<notin> set rest)
     \<and> ClearGroupsRequests \<notin> set rest)
   \<and> currentSearchQuery (forceUpdateGroup c) = currentSearchQuery c
   \<and> currentPage (forceUpdateGroup c) = currentPage c"
  by (simp add: forceUpdateGroup_calls forceUpdateGroup_fields replay_calls_no_fetch)

text \<open>
  Without the invalidation the cache is used: a search whose request is cached makes no
  call to the backend.
\<close>

lemma search_cached_no_request:
  assumes "(js_trim (currentSearchQuery c), currentPage c, pageSize c) \<in> set (cachedRequests c)"
  shows "RestRequest query p n \<notin>
           set (drop (length (calls c)) (calls (search (Some (currentSearchQuery c)) c)))"
  using assms
  by (simp add: search_calls search_setQuery_fields replay_calls_no_fetch)

subsection \<open>Deleting a group\<close>

lemma deleteGroup_fields:
  "groups_S (deleteGroup g c) = groups_S c"
  "groupsDto_S (deleteGroup g c) = groupsDto_S c"
  "pageInfoState_S (deleteGroup g c) = pageInfoState_S c"
  "cachedRequests (deleteGroup g c) = cachedRequests c"
  "calls (deleteGroup g c) = calls c @ (if group_id g = None then [] else [DeleteGroup g])"
  by (simp_all add: deleteGroup_def hasValue_def subscribe_fields call_fields)

lemma deleteGroup_next_failure:
  assumes "map_of (subscriptions c) sid = Some (DeleteSub g)"
  shows "deleteGroup_next sid False msg c =
           (unsubscribe sid c)
             \<lparr>calls := calls c @
                [NotifyError
                   (Translate ''admin.access-control.groups.notification.deleted.failure.title''
                      [(''name'', Some (group_name g))])
                   (Translate ''admin.access-control.groups.notification.deleted.failure.content''
                      [(''cause'', msg)])]\<rparr>"
  using assms by (simp add: deleteGroup_next_def messagePrefix_def call_def unsubscribe_def)

lemma deleteGroup_next_success:
  assumes "map_of (subscriptions c) sid = Some (DeleteSub g)"
  shows "deleteGroup_next sid True msg c =
           unsubscribe sid
             (forceUpdateGroup
                (c\<lparr>calls := calls c @
                     [NotifySuccess
                        (Translate ''admin.access-control.groups.notification.deleted.success''
                           [(''name'', Some (group_name g))])]\<rparr>))"
  using assms by (simp add: deleteGroup_next_def messagePrefix_def call_def)

text \<open>
  C6: when the result of a pending delete request arrives, a failure shows the failure
  notification, with the failure title and with the backend's message as the cause, and
  changes nothing else (no call to clear the cache, no fetch, no second delete request);
  a success shows the success notification and then runs \<^verbatim>\<open>forceUpdateGroup\<close>. The
  list is fetched again if and only if the backend reported success. Neither the call of
  \<^verbatim>\<open>deleteGroup\<close> nor the arrival of its result changes \<^verbatim>\<open>groups$\<close>,
  \<^verbatim>\<open>groupsDto$\<close> or \<^verbatim>\<open>pageInfoState$\<close>.
\<close>

theorem deleteGroup_result:
  assumes "map_of (subscriptions c) sid = Some (DeleteSub g)"
  shows "(\<not> success \<longrightarrow>
            deleteGroup_next sid success msg c =
              (unsubscribe sid c)
                \<lparr>calls := calls c @
                   [NotifyError
                      (Translate ''admin.access-control.groups.notification.deleted.failure.title''
                         [(''name'', Some (group_name g))])
                      (Translate ''admin.access-control.groups.notification.deleted.failure.content''
                         [(''cause'', msg)])]\<rparr>)
       \<and> (success \<longrightarrow>
            deleteGroup_next sid success msg c =
              unsubscribe sid
                (forceUpdateGroup
                   (c\<lparr>calls := calls c @
                        [NotifySuccess
                           (Translate ''admin.access-control.groups.notification.deleted.success''
                              [(''name'', Some (group_name g))])]\<rparr>)))
       \<and> ((\<exists>query p n. SearchGroups query p n
               \<in> set (drop (length (calls c)) (calls (deleteGroup_next sid success msg c))))
            \<longleftrightarrow> success)
       \<and> (ClearGroupsRequests
               \<in> set (drop (length (calls c)) (calls (deleteGroup_next sid success msg c)))
            \<longleftrightarrow> success)
       \<and> (\<forall>g'. DeleteGroup g'
               \<notin> set (drop (length (calls c)) (calls (deleteGroup_next sid success msg c))))
       \<and> groups_S (deleteGroup_next sid success msg c) = groups_S c
       \<and> groupsDto_S (deleteGroup_next sid success msg c) = groupsDto_S c
       \<and> pageInfoState_S (deleteGroup_next sid success msg c) = pageInfoState_S c
       \<and> groups_S (deleteGroup g c) = groups_S c
       \<and> groupsDto_S (deleteGroup g c) = groupsDto_S c
       \<and> pageInfoState_S (deleteGroup g c) = pageInfoState_S c
       \<and> calls (deleteGroup g c) = calls c @ (if group_id g = None then [] else [DeleteGroup g])"
proof (cases success)
  case True
  have result: "deleteGroup_next sid success msg c =
           unsubscribe sid
             (forceUpdateGroup
                (c\<lparr>calls := calls c @
                     [NotifySuccess
                        (Translate ''admin.access-control.groups.notification.deleted.success''
                           [(''name'', Some (group_name g))])]\<rparr>))"
    using True deleteGroup_next_success [OF assms] by simp
  have new: "drop (length (calls c)) (calls (deleteGroup_next sid success msg c)) =
      [NotifySuccess
         (Translate ''admin.access-control.groups.notification.deleted.success''
            [(''name'', Some (group_name g))]),
       ClearGroupsRequests,
       SearchGroups (js_trim (currentSearchQuery c)) (currentPage c) (pageSize c),
       RestRequest (js_trim (currentSearchQuery c)) (currentPage c) (pageSize c)]
      @ replay_calls (groups_S c)"
    unfolding result by (simp add: unsubscribe_fields forceUpdateGroup_calls)
  have subjects: "groups_S (deleteGroup_next sid success msg c) = groups_S c"
    "groupsDto_S (deleteGroup_next sid success msg c) = groupsDto_S c"
    "pageInfoState_S (deleteGroup_next sid success msg c) = pageInfoState_S c"
    unfolding result by (simp_all add: unsubscribe_fields forceUpdateGroup_fields)
  have fetch: "\<exists>query p n. SearchGroups query p n
      \<in> set (drop (length (calls c)) (calls (deleteGroup_next sid success msg c)))"
    unfolding new by auto
  have clear: "ClearGroupsRequests
      \<in> set (drop (length (calls c)) (calls (deleteGroup_next sid success msg c)))"
    unfolding new by simp
  have nodel: "\<forall>g'. DeleteGroup g'
      \<notin> set (drop (length (calls c)) (calls (deleteGroup_next sid success msg c)))"
    unfolding new by (simp add: replay_calls_no_fetch)
  from True result fetch clear nodel subjects show ?thesis
    by (simp only: deleteGroup_fields simp_thms)
next
  case False
  have result: "deleteGroup_next sid success msg c =
           (unsubscribe sid c)
             \<lparr>calls := calls c @
                [NotifyError
                   (Translate ''admin.access-control.groups.notification.deleted.failure.title''
                      [(''name'', Some (group_name g))])
                   (Translate ''admin.access-control.groups.notification.deleted.failure.content''
                      [(''cause'', msg)])]\<rparr>"
    using False deleteGroup_next_failure [OF assms] by simp
  have new: "drop (length (calls c)) (calls (deleteGroup_next sid success msg c)) =
      [NotifyError
         (Translate ''admin.access-control.groups.notification.deleted.failure.title''
            [(''name'', Some (group_name g))])
         (Translate ''admin.access-control.groups.notification.deleted.failure.content''
            [(''cause'', msg)])]"
    unfolding result by simp
  have subjects: "groups_S (deleteGroup_next sid success msg c) = groups_S c"
    "groupsDto_S (deleteGroup_next sid success msg c) = groupsDto_S c"
    "pageInfoState_S (deleteGroup_next sid success msg c) = pageInfoState_S c"
    unfolding result by (simp_all add: unsubscribe_fields)
  have nofetch: "\<not> (\<exists>query p n. SearchGroups query p n
      \<in> set (drop (length (calls c)) (calls (deleteGroup_next sid success msg c))))"
    unfolding new by simp
  have noclear: "ClearGroupsRequests
      \<notin> set (drop (length (calls c)) (calls (deleteGroup_next sid success msg c)))"
    unfolding new by simp
  have nodel: "\<forall>g'. DeleteGroup g'
      \<notin> set (drop (length (calls c)) (calls (deleteGroup_next sid success msg c)))"
    unfolding new by simp
  from False result nofetch noclear nodel subjects show ?thesis
    by (simp only: deleteGroup_fields simp_thms)
qed

theorem deleteGroup_result_witness:
  "deleteGroup_next 0 False (Some ''in use'')
     (deleteGroup \<lparr>group_id = Some ''7'', group_name = ''Editors'', group_self = ''/groups/7''\<rparr>
        constructor)
   = constructor
       \<lparr>nextSubscription := 1,
        calls :=
          [DeleteGroup \<lparr>group_id = Some ''7'', group_name = ''Editors'', group_self = ''/groups/7''\<rparr>,
           NotifyError
             (Translate ''admin.access-control.groups.notification.deleted.failure.title''
                [(''name'', Some ''Editors'')])
             (Translate ''admin.access-control.groups.notification.deleted.failure.content''
                [(''cause'', Some ''in use'')])]\<rparr>"
proof -
  let ?g = "\<lparr>group_id = Some ''7'', group_name = ''Editors'', group_self = ''/groups/7''\<rparr>"
  have c: "deleteGroup ?g constructor =
            constructor\<lparr>subscriptions := [(0, DeleteSub ?g)], nextSubscription := 1,
                        calls := [DeleteGroup ?g]\<rparr>"
    by (simp add: deleteGroup_def hasValue_def subscribe_def call_def constructor_def)
  have pending: "map_of (subscriptions (deleteGroup ?g constructor)) 0 = Some (DeleteSub ?g)"
    unfolding c by simp
  from deleteGroup_result [OF pending, of False "Some ''in use''"]
  have "deleteGroup_next 0 False (Some ''in use'') (deleteGroup ?g constructor) =
          (unsubscribe 0 (deleteGroup ?g constructor))
            \<lparr>calls := calls (deleteGroup ?g constructor) @
               [NotifyError
                  (Translate ''admin.access-control.groups.notification.deleted.failure.title''
                     [(''name'', Some (group_name ?g))])
                  (Translate ''admin.access-control.groups.notification.deleted.failure.content''
                     [(''cause'', Some ''in use'')])]\<rparr>"
    by simp
  then show ?thesis
    unfolding c by (simp add: unsubscribe_def constructor_def)
qed

subsection \<open>The derivation step\<close>

lemma latest_answer_Nil: "latest_answer i [] = None"
  by (simp add: latest_answer_def)

lemma latest_answer_snoc:
  "latest_answer i (evs @ [(j, b)]) = (if i = j then Some b else latest_answer i evs)"
  by (simp add: latest_answer_def)

lemma latest_answer_None_iff:
  "latest_answer i evs = None \<longleftrightarrow> i \<notin> fst ` set evs"
  by (auto simp: latest_answer_def filter_empty_conv)

lemma latest_dtos_length: "length (latest_dtos groups evs) = length groups"
  by (simp add: latest_dtos_def)

lemma latest_dtos_nth:
  "i < length groups \<Longrightarrow>
   latest_dtos groups evs ! i = map_option (\<lambda>b. mkGroupDtoModel b (groups ! i)) (latest_answer i evs)"
  by (simp add: latest_dtos_def)

lemma latest_dtos_snoc:
  "latest_dtos groups (evs @ [(j, b)]) =
     (if j < length groups
      then (latest_dtos groups evs)[j := Some (mkGroupDtoModel b (groups ! j))]
      else latest_dtos groups evs)"
  by (rule nth_equalityI)
     (auto simp: latest_dtos_length latest_dtos_nth latest_answer_snoc nth_list_update)

lemma latest_dtos_all:
  "list_all (\<lambda>v. v \<noteq> None) (latest_dtos groups evs) \<longleftrightarrow>
     (\<forall>i<length groups. latest_answer i evs \<noteq> None)"
  by (auto simp: list_all_length latest_dtos_length latest_dtos_nth)

text \<open>One answer, for an inner observable whose latest values are those of the answers so far.\<close>

lemma isAuthorized_emits_latest:
  assumes "inner_latest inner = latest_dtos (inner_page inner) pre"
  shows "isAuthorized_emits j b inner =
           (inner\<lparr>inner_latest := latest_dtos (inner_page inner) (pre @ [(j, b)])\<rparr>,
            if j < length (inner_page inner) \<and>
               (\<forall>i<length (inner_page inner). latest_answer i (pre @ [(j, b)]) \<noteq> None)
            then Some \<lparr>pageInfo = inner_pageInfo inner,
                       page = map the (latest_dtos (inner_page inner) (pre @ [(j, b)]))\<rparr>
            else None)"
proof (cases "j < length (inner_page inner)")
  case True
  have snoc: "(latest_dtos (inner_page inner) pre)[j := Some (mkGroupDtoModel b (inner_page inner ! j))]
      = latest_dtos (inner_page inner) (pre @ [(j, b)])"
    using True by (simp add: latest_dtos_snoc)
  show ?thesis
    unfolding isAuthorized_emits_def Let_def assms snoc latest_dtos_all
    using True by (simp del: not_None_eq)
next
  case False
  then show ?thesis
    using assms by (simp add: isAuthorized_emits_def latest_dtos_snoc)
qed

lemma derivation_run_length: "length (derivation_run inner evs) = length evs"
  by (induction evs arbitrary: inner) (auto split: prod.splits)

lemma derivation_run_nth:
  assumes "inner_latest inner = latest_dtos (inner_page inner) pre" and "k < length evs"
  shows "derivation_run inner evs ! k =
           (if fst (evs ! k) < length (inner_page inner) \<and>
               (\<forall>i<length (inner_page inner). latest_answer i (pre @ take (Suc k) evs) \<noteq> None)
            then Some \<lparr>pageInfo = inner_pageInfo inner,
                       page = map the (latest_dtos (inner_page inner) (pre @ take (Suc k) evs))\<rparr>
            else None)"
  using assms
proof (induction evs arbitrary: inner pre k)
  case Nil
  then show ?case by simp
next
  case (Cons ev evs)
  obtain j b where ev: "ev = (j, b)" by (cases ev)
  let ?inner' = "inner\<lparr>inner_latest := latest_dtos (inner_page inner) (pre @ [(j, b)])\<rparr>"
  have step: "isAuthorized_emits j b inner =
           (?inner',
            if j < length (inner_page inner) \<and>
               (\<forall>i<length (inner_page inner). latest_answer i (pre @ [(j, b)]) \<noteq> None)
            then Some \<lparr>pageInfo = inner_pageInfo inner,
                       page = map the (latest_dtos (inner_page inner) (pre @ [(j, b)]))\<rparr>
            else None)"
    by (rule isAuthorized_emits_latest [OF Cons.prems(1)])
  show ?case
  proof (cases k)
    case 0
    then show ?thesis by (simp add: ev step)
  next
    case (Suc k')
    have inv': "inner_latest ?inner' = latest_dtos (inner_page ?inner') (pre @ [(j, b)])"
      by simp
    from Suc Cons.prems(2) have k': "k' < length evs" by simp
    from Cons.IH [OF inv' k'] show ?thesis
      by (simp add: ev step Suc)
  qed
qed

lemma latest_answer_take:
  assumes "k < length evs"
  shows "latest_answer i (take (Suc k) evs) \<noteq> None \<longleftrightarrow> (\<exists>j\<le>k. fst (evs ! j) = i)"
proof -
  have "i \<in> fst ` set (take (Suc k) evs) \<longleftrightarrow> (\<exists>j\<le>k. fst (evs ! j) = i)"
  proof
    assume "i \<in> fst ` set (take (Suc k) evs)"
    then obtain ev where "ev \<in> set (take (Suc k) evs)" "fst ev = i" by auto
    then obtain j where "j < length (take (Suc k) evs)" "take (Suc k) evs ! j = ev"
      by (auto simp: in_set_conv_nth)
    with \<open>fst ev = i\<close> assms show "\<exists>j\<le>k. fst (evs ! j) = i"
      by (intro exI [of _ j]) auto
  next
    assume "\<exists>j\<le>k. fst (evs ! j) = i"
    then obtain j where j: "j \<le> k" "fst (evs ! j) = i" by blast
    with assms have "j < length (take (Suc k) evs)" "take (Suc k) evs ! j = evs ! j" by auto
    then have "evs ! j \<in> set (take (Suc k) evs)" by (metis nth_mem)
    with j(2) show "i \<in> fst ` set (take (Suc k) evs)" by force
  qed
  then show ?thesis by (simp add: latest_answer_None_iff)
qed

lemma switchMap_project_latest:
  "inner_latest (switchMap_project groups) = latest_dtos (inner_page (switchMap_project groups)) []"
  by (rule nth_equalityI)
     (simp_all add: switchMap_project_def latest_dtos_length latest_dtos_nth latest_answer_Nil)

text \<open>
  C1: for a fetched list \<open>groups\<close> and any sequence \<open>evs\<close> of answers of the per-group
  authorization queries (any order, any repetition), the derivation step emits at the
  \<open>k\<close>-th answer exactly when that answer belongs to a group of the page and every group
  of the page has answered by then, so never before all derivations have completed.
  Whatever it emits there has the page metadata of the input, as many elements as the
  input page, and as its \<open>i\<close>-th element the DTO that wraps the \<open>i\<close>-th input group
  together with the latest answer for that group.
\<close>

theorem derivation_emits_in_input_order:
  assumes "k < length evs"
  shows "((\<exists>out. derivation_run (switchMap_project groups) evs ! k = Some out) \<longleftrightarrow>
            fst (evs ! k) < length (page groups) \<and>
            (\<forall>i<length (page groups). \<exists>j\<le>k. fst (evs ! j) = i))
       \<and> (\<forall>out. derivation_run (switchMap_project groups) evs ! k = Some out \<longrightarrow>
              pageInfo out = pageInfo groups \<and>
              length (page out) = length (page groups) \<and>
              (\<forall>i<length (page groups).
                  dto_group (page out ! i) = page groups ! i \<and>
                  latest_answer i (take (Suc k) evs) = Some (ableToDelete (page out ! i))))"
proof -
  let ?n = "length (page groups)"
  have run: "derivation_run (switchMap_project groups) evs ! k =
           (if fst (evs ! k) < ?n \<and> (\<forall>i<?n. latest_answer i (take (Suc k) evs) \<noteq> None)
            then Some \<lparr>pageInfo = pageInfo groups,
                       page = map the (latest_dtos (page groups) (take (Suc k) evs))\<rparr>
            else None)"
    using derivation_run_nth [OF switchMap_project_latest assms, of groups]
    by (simp add: switchMap_project_def)
  have all: "(\<forall>i<?n. latest_answer i (take (Suc k) evs) \<noteq> None) \<longleftrightarrow>
             (\<forall>i<?n. \<exists>j\<le>k. fst (evs ! j) = i)"
    by (simp add: latest_answer_take [OF assms] del: not_None_eq)
  have timing: "(\<exists>out. derivation_run (switchMap_project groups) evs ! k = Some out) \<longleftrightarrow>
            fst (evs ! k) < ?n \<and> (\<forall>i<?n. \<exists>j\<le>k. fst (evs ! j) = i)"
    unfolding run all [symmetric] by simp
  have content: "pageInfo out = pageInfo groups \<and> length (page out) = ?n \<and>
              (\<forall>i<?n. dto_group (page out ! i) = page groups ! i \<and>
                  latest_answer i (take (Suc k) evs) = Some (ableToDelete (page out ! i)))"
    if out: "derivation_run (switchMap_project groups) evs ! k = Some out" for out
  proof -
    from out have some: "\<forall>i<?n. latest_answer i (take (Suc k) evs) \<noteq> None"
      and eq: "out = \<lparr>pageInfo = pageInfo groups,
                       page = map the (latest_dtos (page groups) (take (Suc k) evs))\<rparr>"
      unfolding run by (auto split: if_splits)
    have "dto_group (page out ! i) = page groups ! i \<and>
          latest_answer i (take (Suc k) evs) = Some (ableToDelete (page out ! i))"
      if "i < ?n" for i
    proof -
      from some that obtain b where b: "latest_answer i (take (Suc k) evs) = Some b" by auto
      with that show ?thesis
        by (simp add: eq latest_dtos_length latest_dtos_nth mkGroupDtoModel_def)
    qed
    then show ?thesis by (simp add: eq latest_dtos_length)
  qed
  from timing content show ?thesis by blast
qed


theorem derivation_emits_in_input_order_witness:
  "derivation_run
     (switchMap_project
        \<lparr>pageInfo = \<lparr>pi_currentPage = 1, pi_pageSize = 5, pi_totalElements = 2\<rparr>,
         page = [Some \<lparr>group_id = Some ''1'', group_name = ''Admins'', group_self = ''/groups/1''\<rparr>,
                 Some \<lparr>group_id = Some ''2'', group_name = ''Editors'', group_self = ''/groups/2''\<rparr>]\<rparr>)
     [(1, True), (0, False)]
   = [None,
      Some \<lparr>pageInfo = \<lparr>pi_currentPage = 1, pi_pageSize = 5, pi_totalElements = 2\<rparr>,
            page = [\<lparr>ableToDelete = False,
                     dto_group = Some \<lparr>group_id = Some ''1'', group_name = ''Admins'',
                                        group_self = ''/groups/1''\<rparr>\<rparr>,
                    \<lparr>ableToDelete = True,
                     dto_group = Some \<lparr>group_id = Some ''2'', group_name = ''Editors'',
                                        group_self = ''/groups/2''\<rparr>\<rparr>]\<rparr>]"
proof -
  have k: "(1::nat) < length [(1::nat, True), (0, False)]" by simp
  show ?thesis
    using derivation_emits_in_input_order [OF k]
    by (simp add: switchMap_project_def isAuthorized_emits_def Let_def mkGroupDtoModel_def)
qed

text \<open>
  The derivation step inside the component: a succeeded value of \<^verbatim>\<open>groups$\<close> installs
  the inner observable of its payload in an open derivation subscription, and what that
  inner observable emits at an answer becomes the value of \<^verbatim>\<open>groupsDto$\<close>.
\<close>

lemma map_of_set_inner:
  "map_of (subscriptions (set_inner sid inner c)) sid =
     (case map_of (subscriptions c) sid of None \<Rightarrow> None | Some s \<Rightarrow> Some (DeriveSub inner))"
proof -
  have "map_of (map (\<lambda>(k, s). if k = sid then (k, DeriveSub inner) else (k, s)) xs) sid =
     (case map_of xs sid of None \<Rightarrow> None | Some s \<Rightarrow> Some (DeriveSub inner))" for xs
    by (induction xs) auto
  then show ?thesis by (simp add: set_inner_def)
qed

lemma groups_pipeline_installs:
  assumes "map_of (subscriptions c) sid = Some (DeriveSub old)"
    and "hasSucceeded rd" and "payload rd = Some groups"
  shows "map_of (subscriptions (groups_pipeline sid rd c)) sid =
           Some (DeriveSub (Some (switchMap_project groups)))"
  using assms by (simp add: groups_pipeline_def map_of_set_inner)

lemma isAuthorized_next_emits:
  assumes "map_of (subscriptions c) sid = Some (DeriveSub (Some inner))"
    and "isAuthorized_emits i authorized inner = (inner', Some v)"
  shows "groupsDto_S (isAuthorized_next sid i authorized c) = Some v"
    and "pageInfoState_S (isAuthorized_next sid i authorized c) = Some (pageInfo v)"
  using assms by (simp_all add: isAuthorized_next_def groupsDto_next_def Let_def)

lemma isAuthorized_next_silent:
  assumes "map_of (subscriptions c) sid = Some (DeriveSub (Some inner))"
    and "isAuthorized_emits i authorized inner = (inner', None)"
  shows "groupsDto_S (isAuthorized_next sid i authorized c) = groupsDto_S c"
    and "pageInfoState_S (isAuthorized_next sid i authorized c) = pageInfoState_S c"
  using assms by (simp_all add: isAuthorized_next_def Let_def set_inner_def)

subsection \<open>Teardown\<close>

text \<open>
  \<^verbatim>\<open>ngOnDestroy\<close> closes every subscription that was pushed onto \<^verbatim>\<open>subs\<close>: what the
  search result or an authorization query of such a subscription emits afterwards is not
  delivered.
\<close>

lemma cleanup_subscriptions:
  "subscriptions (foldl (\<lambda>c' sub. unsubscribe sub c') c xs) =
     filter (\<lambda>(k, s). k \<notin> set xs) (subscriptions c)"
proof (induction xs arbitrary: c)
  case Nil
  then show ?case by simp
next
  case (Cons x xs)
  have "subscriptions (foldl (\<lambda>c' sub. unsubscribe sub c') (unsubscribe x c) xs) =
          filter (\<lambda>(k, s). k \<notin> set xs) (subscriptions (unsubscribe x c))"
    by (rule Cons.IH)
  also have "\<dots> = filter (\<lambda>(k, s). k \<notin> set (x # xs)) (subscriptions c)"
    by (auto simp: unsubscribe_def intro!: filter_cong)
  finally show ?case by simp
qed

lemma map_of_filter_key:
  "map_of (filter (\<lambda>(k, s). P k) xs) sid = (if P sid then map_of xs sid else None)"
  by (induction xs) auto

lemma ngOnDestroy_releases:
  assumes "sid \<in> set (subs c)"
  shows "map_of (subscriptions (ngOnDestroy c)) sid = None"
  using assms
  by (simp add: ngOnDestroy_def cleanupSubscribes_def cleanup_subscriptions map_of_filter_key)

lemma ngOnDestroy_silences_subs:
  assumes "sid \<in> set (subs c)"
  shows "step (Emit_searchGroups sid rd) (ngOnDestroy c) = ngOnDestroy c"
    and "step (Emit_isAuthorized sid i authorized) (ngOnDestroy c) = ngOnDestroy c"
  using ngOnDestroy_releases [OF assms]
  by (simp_all add: searchGroups_next_def isAuthorized_next_def)

text \<open>
  C8 fails on the code: the subscription to the result of \<^verbatim>\<open>deleteGroup\<close> is not
  pushed onto \<^verbatim>\<open>subs\<close>, so teardown does not release it. In the run below a delete
  request is pending when the component is destroyed; \<^verbatim>\<open>ngOnDestroy\<close> closes the
  subscriptions 0 and 1 of the first search and leaves subscription 2 open. When the
  backend then reports success, the subscriber runs \<^verbatim>\<open>forceUpdateGroup\<close>, which
  subscribes anew (3 and 4), and the results that follow change \<^verbatim>\<open>groups$\<close>,
  \<^verbatim>\<open>groupsDto$\<close> and \<^verbatim>\<open>pageInfoState$\<close> of the destroyed component.
\<close>

theorem delete_result_after_destroy_refetches:
  "(let g = \<lparr>group_id = Some ''7'', group_name = ''Editors'', group_self = ''/groups/7''\<rparr>;
        rd = \<lparr>rd_state = Success,
              payload = Some \<lparr>pageInfo = \<lparr>pi_currentPage = 1, pi_pageSize = 5,
                                           pi_totalElements = 1\<rparr>,
                              page = [Some \<lparr>group_id = Some ''1'', group_name = ''Admins'',
                                             group_self = ''/groups/1''\<rparr>]\<rparr>,
              errorMessage = None\<rparr>;
        destroyed = run [Call_ngOnInit, Call_deleteGroup g, Call_ngOnDestroy] constructor;
        later = run [Emit_deleteGroup 2 True None, Emit_searchGroups 3 rd,
                     Emit_isAuthorized 4 0 True] destroyed
    in subs destroyed = [0, 1]
     \<and> subscriptions destroyed = [(2, DeleteSub g)]
     \<and> groups_S destroyed = None
     \<and> groupsDto_S destroyed = None
     \<and> pageInfoState_S destroyed = None
     \<and> groups_S later = Some rd
     \<and> groupsDto_S later =
           Some \<lparr>pageInfo = \<lparr>pi_currentPage = 1, pi_pageSize = 5, pi_totalElements = 1\<rparr>,
                 page = [\<lparr>ableToDelete = True,
                          dto_group = Some \<lparr>group_id = Some ''1'', group_name = ''Admins'',
                                             group_self = ''/groups/1''\<rparr>\<rparr>]\<rparr>
     \<and> pageInfoState_S later =
           Some \<lparr>pi_currentPage = 1, pi_pageSize = 5, pi_totalElements = 1\<rparr>)"
  by code_simp

end
